theory Spec2Isabelle
  imports Main "HOL-Library.AList"
begin

section \<open>Data model of App.js\<close>

text \<open>
  The component \<open>App\<close> of \<open>src/tic_tac_toe_frontend/src/App.js\<close> keeps three pieces of
  game state (\<open>board\<close>, \<open>xIsNext\<close>, \<open>scores\<close>) and derives \<open>winner\<close>, \<open>line\<close>,
  \<open>isBoardFull\<close>, \<open>isDraw\<close> and \<open>statusMessage\<close> from them on every render.

  A board slot reads as one of four JavaScript values: \<open>undefined\<close>, \<open>null\<close>, \<open>'X'\<close> or
  \<open>'O'\<close>; \<open>MarkX\<close> and \<open>MarkO\<close> are the two strings. Inside the element list of an
  array \<open>Undefined\<close> stands for a hole (an index below \<open>length\<close> that holds no
  element); the program never stores the value \<open>undefined\<close> itself.
\<close>

datatype mark = MarkX | MarkO

datatype cell = Undefined | Null | Filled mark

text \<open>JavaScript truthiness: \<open>undefined\<close> and \<open>null\<close> are falsy, a non-empty string is truthy.\<close>

fun truthy :: "cell \<Rightarrow> bool" where
  "truthy Undefined = False"
| "truthy Null = False"
| "truthy (Filled m) = True"

text \<open>
  A JavaScript array object: its indexed elements (\<open>elems\<close>, whose length is the array's
  \<open>length\<close>) and the properties stored under keys that are not array indices
  (\<open>props\<close>). An integer key is an array index when it lies in \<open>0 .. 2^32 - 2\<close>; a write
  under any other integer key (a negative one, say) creates an ordinary property and
  leaves \<open>length\<close> alone. The index of a click is modelled as an \<open>int\<close>.
\<close>

record jsarray =
  elems :: "cell list"
  props :: "(int \<times> cell) list"

definition is_array_index :: "int \<Rightarrow> bool" where
  "is_array_index i = (0 \<le> i \<and> i < 4294967295)"

text \<open>\<open>board[i]\<close>: a hole, an index past the end and a missing property all read \<open>undefined\<close>.\<close>

definition get :: "jsarray \<Rightarrow> int \<Rightarrow> cell" where
  "get b i =
     (if is_array_index i
      then (if nat i < length (elems b) then elems b ! nat i else Undefined)
      else (case map_of (props b) i of None \<Rightarrow> Undefined | Some v \<Rightarrow> v))"

text \<open>
  \<open>board[i] = v\<close>: inside the array the element is replaced; past the end the array grows
  to length \<open>i + 1\<close> and the indices in between stay holes; under a key that is no array
  index the property is set.
\<close>

definition set_index :: "jsarray \<Rightarrow> int \<Rightarrow> cell \<Rightarrow> jsarray" where
  "set_index b i v =
     (if is_array_index i
      then (if nat i < length (elems b)
            then b\<lparr>elems := (elems b)[nat i := v]\<rparr>
            else b\<lparr>elems := elems b @ replicate (nat i - length (elems b)) Undefined @ [v]\<rparr>)
      else b\<lparr>props := AList.update i v (props b)\<rparr>)"

text \<open>\<open>board.slice()\<close> copies the indexed elements (holes included) and nothing else.\<close>

definition slice :: "jsarray \<Rightarrow> jsarray" where
  "slice b = \<lparr>elems = elems b, props = []\<rparr>"

text \<open>\<open>Array(9).fill(null)\<close>\<close>

definition empty_board :: jsarray where
  "empty_board = \<lparr>elems = replicate 9 Null, props = []\<rparr>"

text \<open>
  The \<open>scores\<close> object \<open>{ X: n, O: n }\<close>. The counts start at 0 and grow by one per won
  round, a range in which JavaScript's number addition is exact, so they are naturals.
\<close>

record scores =
  score_X :: nat
  score_O :: nat

fun score :: "mark \<Rightarrow> scores \<Rightarrow> nat" where
  "score MarkX sc = score_X sc"
| "score MarkO sc = score_O sc"

text \<open>\<open>{ ...s, [winner]: s[winner] + 1 }\<close>\<close>

fun bump :: "mark \<Rightarrow> scores \<Rightarrow> scores" where
  "bump MarkX sc = sc\<lparr>score_X := score_X sc + 1\<rparr>"
| "bump MarkO sc = sc\<lparr>score_O := score_O sc + 1\<rparr>"

fun other :: "mark \<Rightarrow> mark" where
  "other MarkX = MarkO"
| "other MarkO = MarkX"

section \<open>Derived values\<close>

definition WIN_LINES :: "(int \<times> int \<times> int) list" where
  "WIN_LINES =
     [(0, 1, 2), (3, 4, 5), (6, 7, 8),
      (0, 3, 6), (1, 4, 7), (2, 5, 8),
      (0, 4, 8), (2, 4, 6)]"

text \<open>The test of line 58: \<open>board[a] && board[a] === board[b] && board[a] === board[c]\<close>.\<close>

fun complete :: "jsarray \<Rightarrow> int \<times> int \<times> int \<Rightarrow> bool" where
  "complete b (a, b', c) = (truthy (get b a) \<and> get b a = get b b' \<and> get b a = get b c)"

text \<open>
  The loop of lines 57-62 over a list of lines: the pair is the returned object
  \<open>{ winner, line }\<close>.
\<close>

fun scanLines :: "(int \<times> int \<times> int) list \<Rightarrow> jsarray \<Rightarrow> cell \<times> int list" where
  "scanLines [] b = (Null, [])"
| "scanLines ((a, b', c) # ls) b =
     (if truthy (get b a) \<and> get b a = get b b' \<and> get b a = get b c
      then (get b a, [a, b', c])
      else scanLines ls b)"

definition winner :: "jsarray \<Rightarrow> cell" where
  "winner b = fst (scanLines WIN_LINES b)"

definition line :: "jsarray \<Rightarrow> int list" where
  "line b = snd (scanLines WIN_LINES b)"

text \<open>\<open>board.every((cell) => cell !== null)\<close>; \<open>every\<close> does not visit holes.\<close>

definition isBoardFull :: "jsarray \<Rightarrow> bool" where
  "isBoardFull b = list_all (\<lambda>c. c \<noteq> Null) (filter (\<lambda>c. c \<noteq> Undefined) (elems b))"

definition isDraw :: "jsarray \<Rightarrow> bool" where
  "isDraw b = (\<not> truthy (winner b) \<and> isBoardFull b)"

text \<open>
  The three-way outcome. The source draws it on line 156
  (\<open>winner ? 'won' : isDraw ? 'draw' : 'turn'\<close>) and in \<open>statusMessage\<close>; the value
  \<open>Won\<close> carries \<open>winner\<close> and \<open>line\<close>.
\<close>

datatype outcome = InProgress | Won mark "int list" | Draw

definition computeOutcome :: "jsarray \<Rightarrow> outcome" where
  "computeOutcome b =
     (case winner b of
        Filled m \<Rightarrow> Won m (line b)
      | _ \<Rightarrow> if isDraw b then Draw else InProgress)"

text \<open>String conversion of a slot value inside a template literal.\<close>

fun cell_str :: "cell \<Rightarrow> string" where
  "cell_str Undefined = ''undefined''"
| "cell_str Null = ''null''"
| "cell_str (Filled MarkX) = ''X''"
| "cell_str (Filled MarkO) = ''O''"

definition draw_text :: string where
  "draw_text = ''It'' @ [CHR 0x27] @ ''s a draw''"

definition statusMessage :: "jsarray \<Rightarrow> bool \<Rightarrow> string" where
  "statusMessage b xn =
     (if truthy (winner b) then ''Winner: '' @ cell_str (winner b)
      else if isDraw b then draw_text
      else ''Turn: '' @ (if xn then ''X'' else ''O''))"

section \<open>State and operations\<close>

text \<open>
  The state of the component between two events: the three \<open>useState\<close> values, and
  \<open>effWinner\<close>, the value \<open>winner\<close> had at the last commit. React compares the
  dependency array \<open>[winner]\<close> of the score effect (lines 83-87) with that value and runs
  the effect only when it differs.
\<close>

record state =
  board :: jsarray
  xIsNext :: bool
  scores :: scores
  effWinner :: cell

text \<open>The state after mounting: the effect has run once, with \<open>winner = null\<close>.\<close>

definition init :: state where
  "init = \<lparr>board = empty_board, xIsNext = True,
           scores = \<lparr>score_X = 0, score_O = 0\<rparr>, effWinner = Null\<rparr>"

definition turn :: "state \<Rightarrow> mark" where
  "turn s = (if xIsNext s then MarkX else MarkO)"

text \<open>Lines 71-78. The handler returns without a state update, or sets board and turn.\<close>

definition handleSquareClick :: "int \<Rightarrow> state \<Rightarrow> state" where
  "handleSquareClick index s =
     (if truthy (get (board s) index) \<or> truthy (winner (board s)) then s
      else s\<lparr>board := set_index (slice (board s)) index (Filled (turn s)),
              xIsNext := \<not> xIsNext s\<rparr>)"

text \<open>Lines 93-96 and 102-105.\<close>

definition resetBoard :: "state \<Rightarrow> state" where
  "resetBoard s = s\<lparr>board := empty_board, xIsNext := True\<rparr>"

definition resetAll :: "state \<Rightarrow> state" where
  "resetAll s = (resetBoard s)\<lparr>scores := \<lparr>score_X = 0, score_O = 0\<rparr>\<rparr>"

text \<open>
  A render and commit: \<open>winner\<close> is recomputed from the board; when it differs from the
  value of the previous commit the effect runs and, for a truthy winner, adds one to that
  mark's score. The render that this \<open>setScores\<close> triggers finds \<open>winner\<close> unchanged and
  runs no effect.
\<close>

definition render :: "state \<Rightarrow> state" where
  "render s =
     (let w = winner (board s) in
      if w = effWinner s then s
      else s\<lparr>scores := (case w of Filled m \<Rightarrow> bump m (scores s) | _ \<Rightarrow> scores s),
              effWinner := w\<rparr>)"

text \<open>The three operations as the user sees them: the handler, then the render it causes.\<close>

definition applyMove :: "int \<Rightarrow> state \<Rightarrow> state" where
  "applyMove index s = render (handleSquareClick index s)"

definition resetRound :: "state \<Rightarrow> state" where
  "resetRound s = render (resetBoard s)"

definition resetAll_op :: "state \<Rightarrow> state" where
  "resetAll_op s = render (resetAll s)"

datatype event = Click int | ResetRound | ResetAll

fun step :: "state \<Rightarrow> event \<Rightarrow> state" where
  "step s (Click i) = applyMove i s"
| "step s ResetRound = resetRound s"
| "step s ResetAll = resetAll_op s"

definition run :: "event list \<Rightarrow> state" where
  "run evs = foldl step init evs"

text \<open>A sequence of clicks from a given state.\<close>

fun clicks :: "int list \<Rightarrow> state \<Rightarrow> state" where
  "clicks [] s = s"
| "clicks (i # is) s = clicks is (applyMove i s)"

text \<open>A click is accepted when the guard of line 72 does not return.\<close>

definition accepted :: "int \<Rightarrow> state \<Rightarrow> bool" where
  "accepted i s = (\<not> (truthy (get (board s) i) \<or> truthy (winner (board s))))"

fun accepted_count :: "int list \<Rightarrow> state \<Rightarrow> nat" where
  "accepted_count [] s = 0"
| "accepted_count (i # is) s =
     (if accepted i s then 1 else 0) + accepted_count is (applyMove i s)"

section \<open>Invariants of the reachable states\<close>

text \<open>
  Every board the program builds has at least nine elements, no hole among the first
  nine, and no \<open>null\<close> after them.
\<close>

definition board_ok :: "jsarray \<Rightarrow> bool" where
  "board_ok b =
     (9 \<le> length (elems b) \<and>
      list_all (\<lambda>c. c \<noteq> Undefined) (take 9 (elems b)) \<and>
      list_all (\<lambda>c. c \<noteq> Null) (drop 9 (elems b)))"

text \<open>The effect has seen the current winner.\<close>

definition committed :: "state \<Rightarrow> bool" where
  "committed s = (effWinner s = winner (board s))"

definition state_ok :: "state \<Rightarrow> bool" where
  "state_ok s = (board_ok (board s) \<and> committed s)"

text \<open>The three indices of a line as the list \<open>[a, b, c]\<close> of line 59.\<close>

fun triple_list :: "int \<times> int \<times> int \<Rightarrow> int list" where
  "triple_list (a, b', c) = [a, b', c]"

text \<open>The number of marks among the nine cells.\<close>

definition occupied :: "jsarray \<Rightarrow> nat" where
  "occupied b = length (filter truthy (take 9 (elems b)))"

text \<open>Events whose click, if any, is on one of the nine squares.\<close>

fun in_range_event :: "event \<Rightarrow> bool" where
  "in_range_event (Click i) = (0 \<le> i \<and> i \<le> 8)"
| "in_range_event ResetRound = True"
| "in_range_event ResetAll = True"

subsection \<open>Example games\<close>

text \<open>X takes the top row while O plays 3 and 4.\<close>

definition row_win_moves :: "int list" where
  "row_win_moves = [0, 3, 1, 4, 2]"

text \<open>
  Nine legal moves whose last one, X on 2, completes the top row and the right column at
  once.
\<close>

definition double_win_moves :: "int list" where
  "double_win_moves = [0, 3, 1, 4, 5, 6, 8, 7, 2]"

text \<open>Nine legal moves that fill the board without any complete line.\<close>

definition draw_moves :: "int list" where
  "draw_moves = [0, 1, 2, 4, 3, 5, 7, 6, 8]"

text \<open>A board of exactly nine indexed elements and no other property.\<close>

definition nine_cells :: "jsarray \<Rightarrow> bool" where
  "nine_cells b = (length (elems b) = 9 \<and> props b = [])"

section \<open>Properties of the winner scan\<close>

lemma scanLines_find:
  "scanLines ls b =
     (case find (complete b) ls of
        None \<Rightarrow> (Null, [])
      | Some l \<Rightarrow> (get b (fst l), triple_list l))"
  by (induction ls b rule: scanLines.induct) auto

lemma truthy_iff: "truthy c \<longleftrightarrow> (\<exists>m. c = Filled m)"
  by (cases c) auto

lemma complete_Filled: "complete b l \<Longrightarrow> \<exists>m. get b (fst l) = Filled m"
  by (cases l) (auto simp: truthy_iff)

lemma scanLines_cases:
  "fst (scanLines ls b) = Null \<or> (\<exists>m. fst (scanLines ls b) = Filled m)"
  by (induction ls b rule: scanLines.induct) (auto simp: truthy_iff)

lemma winner_cases:
  "winner b = Null \<or> (\<exists>m. winner b = Filled m)"
  unfolding winner_def by (rule scanLines_cases)

lemma winner_not_Undefined [simp]: "winner b \<noteq> Undefined"
  using winner_cases [of b] by auto

lemma fst_scanLines_Null_iff:
  "fst (scanLines ls b) = Null \<longleftrightarrow> (\<forall>l \<in> set ls. \<not> complete b l)"
  by (induction ls b rule: scanLines.induct) (auto simp: truthy_iff)

lemma winner_Null_iff:
  "winner b = Null \<longleftrightarrow> (\<forall>l \<in> set WIN_LINES. \<not> complete b l)"
  unfolding winner_def by (rule fst_scanLines_Null_iff)

lemma scanLines_Filled_iff:
  "scanLines ls b = (Filled m, l) \<longleftrightarrow>
     (\<exists>k<length ls. complete b (ls ! k) \<and>
        (\<forall>j<k. \<not> complete b (ls ! j)) \<and>
        get b (fst (ls ! k)) = Filled m \<and> l = triple_list (ls ! k))"
  (is "?L \<longleftrightarrow> ?R")
proof (cases "find (complete b) ls")
  case None
  then have no: "\<forall>x \<in> set ls. \<not> complete b x"
    unfolding find_None_iff by blast
  have "\<not> ?L" using None by (simp add: scanLines_find)
  moreover have "\<not> ?R" using no by (meson nth_mem)
  ultimately show ?thesis by simp
next
  case (Some t)
  then obtain i where i: "i < length ls" "complete b (ls ! i)" "t = ls ! i"
    "\<forall>j<i. \<not> complete b (ls ! j)"
    by (auto simp: find_Some_iff)
  have L: "?L \<longleftrightarrow> get b (fst t) = Filled m \<and> l = triple_list t"
    using Some by (auto simp: scanLines_find)
  show ?thesis
  proof
    assume ?L
    with L i show ?R by (intro exI [of _ i]) simp
  next
    assume ?R
    then obtain k where k: "k < length ls" "complete b (ls ! k)"
      "\<forall>j<k. \<not> complete b (ls ! j)" "get b (fst (ls ! k)) = Filled m"
      "l = triple_list (ls ! k)" by blast
    have "k = i"
    proof (rule ccontr)
      assume "k \<noteq> i"
      then consider "k < i" | "i < k" by linarith
      then show False using i k by cases auto
    qed
    with k i L show ?L by simp
  qed
qed

lemma computeOutcome_Won_scan:
  "computeOutcome b = Won m l \<longleftrightarrow> scanLines WIN_LINES b = (Filled m, l)"
  by (cases "scanLines WIN_LINES b")
     (auto simp: computeOutcome_def winner_def line_def split: cell.splits)

lemma computeOutcome_Won_iff:
  "computeOutcome b = Won m l \<longleftrightarrow>
     (\<exists>k<length WIN_LINES. complete b (WIN_LINES ! k) \<and>
        (\<forall>j<k. \<not> complete b (WIN_LINES ! j)) \<and>
        get b (fst (WIN_LINES ! k)) = Filled m \<and> l = triple_list (WIN_LINES ! k))"
  unfolding computeOutcome_Won_scan by (rule scanLines_Filled_iff)

section \<open>The invariants hold in every reachable state\<close>

lemma truthy_winner_iff: "truthy (winner b) \<longleftrightarrow> winner b \<noteq> Null"
  using winner_cases [of b] by auto

lemma board_ok_nth:
  "board_ok b \<longleftrightarrow>
     (9 \<le> length (elems b) \<and>
      (\<forall>j<length (elems b). (j < 9 \<longrightarrow> elems b ! j \<noteq> Undefined) \<and>
                              (9 \<le> j \<longrightarrow> elems b ! j \<noteq> Null)))"
proof (cases "9 \<le> length (elems b)")
  case False
  then show ?thesis by (simp add: board_ok_def)
next
  case True
  have a: "list_all (\<lambda>c. c \<noteq> Undefined) (take 9 (elems b)) \<longleftrightarrow>
        (\<forall>j<length (elems b). j < 9 \<longrightarrow> elems b ! j \<noteq> Undefined)"
    using True by (auto simp: list_all_length)
  have b: "list_all (\<lambda>c. c \<noteq> Null) (drop 9 (elems b)) \<longleftrightarrow>
        (\<forall>j<length (elems b). 9 \<le> j \<longrightarrow> elems b ! j \<noteq> Null)"
  proof
    assume h: "list_all (\<lambda>c. c \<noteq> Null) (drop 9 (elems b))"
    show "\<forall>j<length (elems b). 9 \<le> j \<longrightarrow> elems b ! j \<noteq> Null"
    proof (intro allI impI)
      fix j assume j: "j < length (elems b)" "9 \<le> j"
      then have "j - 9 < length (drop 9 (elems b))" by simp
      with h have "drop 9 (elems b) ! (j - 9) \<noteq> Null" by (simp add: list_all_length)
      with j True show "elems b ! j \<noteq> Null" by simp
    qed
  next
    assume h: "\<forall>j<length (elems b). 9 \<le> j \<longrightarrow> elems b ! j \<noteq> Null"
    show "list_all (\<lambda>c. c \<noteq> Null) (drop 9 (elems b))"
      using h True by (auto simp: list_all_length)
  qed
  show ?thesis unfolding board_ok_def a b using True by auto
qed

lemma board_ok_empty: "board_ok empty_board"
  by (simp add: board_ok_def empty_board_def list_all_iff)

lemma board_ok_set_index:
  assumes "board_ok b"
  shows "board_ok (set_index (slice b) i (Filled m))"
proof (cases "is_array_index i")
  case False
  with assms show ?thesis by (simp add: set_index_def slice_def board_ok_def)
next
  case True
  show ?thesis
  proof (cases "nat i < length (elems b)")
    case inside: True
    with True assms show ?thesis
      by (auto simp: set_index_def slice_def board_ok_nth nth_list_update)
  next
    case False
    with True assms show ?thesis
      by (auto simp: set_index_def slice_def board_ok_nth nth_append nth_Cons')
  qed
qed

lemma board_ok_handleSquareClick:
  "board_ok (board s) \<Longrightarrow> board_ok (board (handleSquareClick i s))"
  by (simp add: handleSquareClick_def board_ok_set_index)

lemma board_render [simp]: "board (render s) = board s"
  by (simp add: render_def Let_def)

lemma xIsNext_render [simp]: "xIsNext (render s) = xIsNext s"
  by (simp add: render_def Let_def)

lemma committed_render: "committed (render s)"
  by (simp add: render_def Let_def committed_def)

lemma render_committed: "committed s \<Longrightarrow> render s = s"
  by (simp add: render_def committed_def)

lemma board_ok_step: "board_ok (board s) \<Longrightarrow> board_ok (board (step s e))"
  by (cases e)
     (simp_all add: applyMove_def resetRound_def resetAll_op_def resetBoard_def resetAll_def
        board_ok_handleSquareClick board_ok_empty)

lemma committed_step: "committed (step s e)"
  by (cases e) (simp_all add: applyMove_def resetRound_def resetAll_op_def committed_render)

lemma run_snoc: "run (evs @ [e]) = step (run evs) e"
  by (simp add: run_def)

lemma state_ok_init: "state_ok init"
  by (simp add: state_ok_def committed_def init_def board_ok_empty)
     (simp add: winner_def WIN_LINES_def empty_board_def get_def is_array_index_def)

lemma state_ok_run: "state_ok (run evs)"
proof (induction evs rule: rev_induct)
  case Nil
  then show ?case by (simp add: run_def state_ok_init)
next
  case (snoc e evs)
  then show ?case
    by (simp add: run_snoc state_ok_def board_ok_step committed_step)
qed

lemma get_in_range:
  assumes "board_ok b" "0 \<le> i" "i \<le> 8"
  shows "get b i = elems b ! nat i" and "nat i < length (elems b)"
    and "get b i \<noteq> Undefined"
  using assms by (auto simp: get_def is_array_index_def board_ok_nth)

lemma full_truthy:
  assumes "board_ok b" "isBoardFull b" "0 \<le> i" "i \<le> 8"
  shows "truthy (get b i)"
proof -
  note g = get_in_range(1) [OF assms(1,3,4)]
    and n = get_in_range(2) [OF assms(1,3,4)]
    and u = get_in_range(3) [OF assms(1,3,4)]
  from n have "elems b ! nat i \<in> set (elems b)" by simp
  with assms(2) u g have "get b i \<noteq> Null"
    by (auto simp: isBoardFull_def list_all_iff)
  with u show ?thesis by (cases "get b i") auto
qed

section \<open>Reading and writing board slots\<close>

lemma in_range_array_index: "0 \<le> j \<Longrightarrow> j \<le> 8 \<Longrightarrow> is_array_index j"
  by (simp add: is_array_index_def)

lemma get_set_index_other:
  assumes "is_array_index j" "j \<noteq> i"
  shows "get (set_index (slice b) i v) j = get b j"
proof (cases "is_array_index i")
  case False
  with assms show ?thesis by (simp add: set_index_def slice_def get_def)
next
  case True
  with assms have ne: "nat j \<noteq> nat i" unfolding is_array_index_def by linarith
  show ?thesis
  proof (cases "nat i < length (elems b)")
    case inside: True
    with True assms ne show ?thesis
      by (simp add: set_index_def slice_def get_def)
  next
    case False
    with True assms ne show ?thesis
      by (auto simp: set_index_def slice_def get_def nth_append nth_Cons')
  qed
qed

lemma get_set_index_same:
  "get (set_index (slice b) i v) i = v"
  by (auto simp: set_index_def slice_def get_def nth_append update_conv')

lemma set_index_inside:
  "is_array_index i \<Longrightarrow> nat i < length (elems b) \<Longrightarrow>
     set_index (slice b) i v = \<lparr>elems = (elems b)[nat i := v], props = []\<rparr>"
  by (simp add: set_index_def slice_def)

lemma length_set_index: "length (elems b) \<le> length (elems (set_index (slice b) i v))"
  by (simp add: set_index_def slice_def)

lemma length_filter_update:
  "n < length xs \<Longrightarrow> \<not> P (xs ! n) \<Longrightarrow> P v \<Longrightarrow>
     length (filter P (xs[n := v])) = Suc (length (filter P xs))"
proof (induction xs arbitrary: n)
  case Nil
  then show ?case by simp
next
  case (Cons x xs)
  then show ?case by (cases n) simp_all
qed

section \<open>The winner depends on the nine cells only\<close>

lemma scanLines_cong_gen:
  assumes "\<forall>l \<in> set ls. get b (fst l) = get b' (fst l) \<and>
             get b (fst (snd l)) = get b' (fst (snd l)) \<and>
             get b (snd (snd l)) = get b' (snd (snd l))"
  shows "scanLines ls b = scanLines ls b'"
  using assms
proof (induction ls)
  case Nil
  show ?case by simp
next
  case (Cons l ls)
  obtain a b1 c where l: "l = (a, b1, c)" by (cases l) auto
  from Cons.prems have g: "get b a = get b' a" "get b b1 = get b' b1" "get b c = get b' c"
    by (simp_all add: l)
  from Cons have r: "scanLines ls b = scanLines ls b'" by simp
  show ?case unfolding l scanLines.simps g r by (rule refl)
qed

lemma WIN_LINES_in_range:
  "\<forall>l \<in> set WIN_LINES. 0 \<le> fst l \<and> fst l \<le> 8 \<and> 0 \<le> fst (snd l) \<and> fst (snd l) \<le> 8 \<and>
      0 \<le> snd (snd l) \<and> snd (snd l) \<le> 8"
  by (simp add: WIN_LINES_def)

lemma scanLines_cong:
  assumes "\<And>j. 0 \<le> j \<Longrightarrow> j \<le> 8 \<Longrightarrow> get b j = get b' j"
  shows "scanLines WIN_LINES b = scanLines WIN_LINES b'"
  using WIN_LINES_in_range by (intro scanLines_cong_gen) (simp add: assms)

lemma winner_cong:
  "(\<And>j. 0 \<le> j \<Longrightarrow> j \<le> 8 \<Longrightarrow> get b j = get b' j) \<Longrightarrow> winner b = winner b'"
  unfolding winner_def by (simp add: scanLines_cong [of b b'])

lemma cell_str_inj: "cell_str (Filled m) = cell_str (Filled m') \<longleftrightarrow> m = m'"
  by (cases m; cases m') simp_all

lemma computeOutcome_Won_winner:
  "computeOutcome b = Won m l \<Longrightarrow> winner b = Filled m"
  by (auto simp: computeOutcome_def split: cell.splits if_splits)

lemma computeOutcome_InProgress_winner:
  "computeOutcome b = InProgress \<Longrightarrow> winner b = Null"
  using winner_cases [of b]
  by (auto simp: computeOutcome_def split: cell.splits if_splits)

section \<open>Handler, render and turn\<close>

lemma effWinner_handleSquareClick [simp]:
  "effWinner (handleSquareClick i s) = effWinner s"
  by (simp add: handleSquareClick_def)

lemma scores_handleSquareClick [simp]:
  "scores (handleSquareClick i s) = scores s"
  by (simp add: handleSquareClick_def)

lemma score_bump_same: "score m (bump m sc) = score m sc + 1"
  by (cases m) simp_all

lemma score_bump_other: "score (other m) (bump m sc) = score (other m) sc"
  by (cases m) simp_all

lemma applyMove_won_noop:
  assumes "committed s" "truthy (winner (board s))"
  shows "applyMove j s = s"
  using assms by (simp add: applyMove_def handleSquareClick_def render_committed)

lemma handleSquareClick_cases:
  "handleSquareClick i s = s \<or>
   (accepted i s \<and>
    handleSquareClick i s =
      s\<lparr>board := set_index (slice (board s)) i (Filled (turn s)), xIsNext := \<not> xIsNext s\<rparr>)"
  by (auto simp: handleSquareClick_def accepted_def)

lemma xIsNext_applyMove:
  "xIsNext (applyMove i s) = (if accepted i s then \<not> xIsNext s else xIsNext s)"
  by (simp add: applyMove_def handleSquareClick_def accepted_def)

lemma xIsNext_clicks:
  "xIsNext (clicks js s) = (xIsNext s = even (accepted_count js s))"
  by (induction js arbitrary: s) (auto simp: xIsNext_applyMove)

lemma xIsNext_resets:
  "xIsNext (resetRound s)" "xIsNext (resetAll_op s)" "xIsNext init"
  by (simp_all add: resetRound_def resetAll_op_def resetAll_def resetBoard_def init_def)

lemma length_applyMove: "length (elems (board s)) \<le> length (elems (board (applyMove i s)))"
  using handleSquareClick_cases [of i s]
  by (auto simp: applyMove_def length_set_index)

section \<open>Boards of clicks on the nine squares\<close>

lemma nine_cells_empty: "nine_cells empty_board"
  by (simp add: nine_cells_def empty_board_def)

lemma nine_cells_step:
  assumes "nine_cells (board s)" "in_range_event e"
  shows "nine_cells (board (step s e))"
proof (cases e)
  case (Click i)
  with assms(2) have r: "0 \<le> i" "i \<le> 8" by simp_all
  then have i: "is_array_index i" "nat i < 9"
    by (simp add: is_array_index_def, linarith)
  with assms(1) have "nine_cells (set_index (slice (board s)) i v)" for v
    by (simp add: set_index_inside nine_cells_def)
  with assms(1) Click show ?thesis
    using handleSquareClick_cases [of i s] by (auto simp: applyMove_def)
next
  case ResetRound
  then show ?thesis by (simp add: resetRound_def resetBoard_def nine_cells_empty)
next
  case ResetAll
  then show ?thesis
    by (simp add: resetAll_op_def resetAll_def resetBoard_def nine_cells_empty)
qed

lemma nine_cells_run: "list_all in_range_event evs \<Longrightarrow> nine_cells (board (run evs))"
proof (induction evs rule: rev_induct)
  case Nil
  show ?case by (simp add: run_def init_def nine_cells_empty)
next
  case (snoc e evs)
  then show ?case by (simp add: run_snoc nine_cells_step)
qed

lemma applyMove_board_in_range:
  assumes "board_ok (board s)" "nine_cells (board s)" "0 \<le> i" "i \<le> 8"
  shows "board (applyMove i s) = board s \<or>
         (get (board s) i = Null \<and>
          board (applyMove i s) = (board s)\<lparr>elems := (elems (board s))[nat i := Filled (turn s)]\<rparr>)"
proof -
  from handleSquareClick_cases [of i s]
  consider "handleSquareClick i s = s"
    | "accepted i s" "handleSquareClick i s =
      s\<lparr>board := set_index (slice (board s)) i (Filled (turn s)), xIsNext := \<not> xIsNext s\<rparr>"
    by blast
  then show ?thesis
  proof cases
    case 1
    then show ?thesis by (simp add: applyMove_def)
  next
    case 2
    from 2(1) have "\<not> truthy (get (board s) i)" by (simp add: accepted_def)
    with get_in_range(3) [OF assms(1,3,4)] have n: "get (board s) i = Null"
      by (cases "get (board s) i") auto
    from assms(3,4) have "is_array_index i" by (rule in_range_array_index)
    with get_in_range(2) [OF assms(1,3,4)] assms(2)
    have "set_index (slice (board s)) i (Filled (turn s)) =
          (board s)\<lparr>elems := (elems (board s))[nat i := Filled (turn s)]\<rparr>"
      by (simp add: set_index_inside nine_cells_def)
    with n 2(2) show ?thesis by (simp add: applyMove_def)
  qed
qed

section \<open>Scores over a round, and the exact length after a click\<close>

lemma length_set_index_exact:
  "length (elems (set_index (slice b) i v)) =
     (if is_array_index i \<and> length (elems b) \<le> nat i then nat i + 1 else length (elems b))"
  by (simp add: set_index_def slice_def)

lemma length_applyMove_exact:
  "length (elems (board (applyMove k s))) =
     (if accepted k s \<and> is_array_index k \<and> length (elems (board s)) \<le> nat k
      then nat k + 1 else length (elems (board s)))"
  by (simp add: applyMove_def handleSquareClick_def accepted_def length_set_index_exact)

lemma committed_applyMove: "committed (applyMove i s)"
  by (simp add: applyMove_def committed_render)

lemma clicks_won_noop:
  "committed s \<Longrightarrow> truthy (winner (board s)) \<Longrightarrow> clicks js s = s"
  by (induction js) (simp_all add: applyMove_won_noop)

lemma scores_applyMove:
  assumes "committed s"
  shows "scores (applyMove i s) =
     (if winner (board s) = Null
      then (case winner (board (applyMove i s)) of
              Filled w \<Rightarrow> bump w (scores s) | _ \<Rightarrow> scores s)
      else scores s)"
proof (cases "winner (board s) = Null")
  case False
  then have "truthy (winner (board s))" by (simp add: truthy_winner_iff)
  with assms have "applyMove i s = s" by (rule applyMove_won_noop)
  with False show ?thesis by simp
next
  case True
  with assms have e: "effWinner (handleSquareClick i s) = Null" by (simp add: committed_def)
  show ?thesis
    using True e winner_not_Undefined [of "board (handleSquareClick i s)"]
    by (cases "winner (board (handleSquareClick i s))")
       (simp_all add: applyMove_def render_def)
qed

lemma scores_clicks:
  "committed s \<Longrightarrow> winner (board s) = Null \<Longrightarrow>
     scores (clicks js s) =
       (case winner (board (clicks js s)) of
          Filled w \<Rightarrow> bump w (scores s) | _ \<Rightarrow> scores s)"
proof (induction js arbitrary: s)
  case Nil
  then show ?case by simp
next
  case (Cons i js)
  let ?t = "applyMove i s"
  have c: "committed ?t" by (rule committed_applyMove)
  from Cons.prems have sc: "scores ?t =
      (case winner (board ?t) of Filled w \<Rightarrow> bump w (scores s) | _ \<Rightarrow> scores s)"
    by (simp add: scores_applyMove)
  show ?case
  proof (cases "winner (board ?t) = Null")
    case True
    with sc have "scores ?t = scores s" by simp
    with Cons.IH [OF c True] show ?thesis by (simp split: cell.splits)
  next
    case False
    then have "truthy (winner (board ?t))" by (simp add: truthy_winner_iff)
    with c have "clicks js ?t = ?t" by (rule clicks_won_noop)
    with sc show ?thesis by simp
  qed
qed

lemma case_outcome_winner:
  "(case computeOutcome b of Won w l \<Rightarrow> f w | _ \<Rightarrow> g) =
   (case winner b of Filled w \<Rightarrow> f w | _ \<Rightarrow> g)"
  by (simp add: computeOutcome_def split: cell.splits)

lemma not_Won_winner:
  "(\<forall>w l. computeOutcome b \<noteq> Won w l) \<Longrightarrow> winner b = Null"
  using winner_cases [of b] by (auto simp: computeOutcome_def)

section \<open>The claims\<close>

text \<open>
  C1 (as amended). \<open>computeOutcome\<close> depends on the board alone. It goes through the
  eight lines in the order rows \<open>[0,1,2]\<close>, \<open>[3,4,5]\<close>, \<open>[6,7,8]\<close>, columns
  \<open>[0,3,6]\<close>, \<open>[1,4,7]\<close>, \<open>[2,5,8]\<close>, diagonals \<open>[0,4,8]\<close>, \<open>[2,4,6]\<close>, and its value is
  \<open>Won m l\<close> exactly when \<open>l\<close> is the first line of that order whose three cells are
  non-empty and equal, \<open>m\<close> being the mark on it. So a board whose three cells on a line
  all hold \<open>m\<close> yields \<open>Won m\<close> of that line whenever no earlier line of the order is
  complete.
\<close>

theorem computeOutcome_first_complete_line:
  "WIN_LINES = [(0, 1, 2), (3, 4, 5), (6, 7, 8), (0, 3, 6), (1, 4, 7), (2, 5, 8),
                (0, 4, 8), (2, 4, 6)] \<and>
   (computeOutcome b = Won m l \<longleftrightarrow>
     (\<exists>k<length WIN_LINES. complete b (WIN_LINES ! k) \<and>
        (\<forall>j<k. \<not> complete b (WIN_LINES ! j)) \<and>
        get b (fst (WIN_LINES ! k)) = Filled m \<and> l = triple_list (WIN_LINES ! k))) \<and>
   (n < length WIN_LINES \<and> WIN_LINES ! n = (a, b', c) \<and>
        get b a = Filled m \<and> get b b' = Filled m \<and> get b c = Filled m \<and>
        (\<forall>j<n. \<not> complete b (WIN_LINES ! j))
      \<longrightarrow> computeOutcome b = Won m [a, b', c])"
proof (intro conjI impI)
  show "WIN_LINES = [(0, 1, 2), (3, 4, 5), (6, 7, 8), (0, 3, 6), (1, 4, 7), (2, 5, 8),
                (0, 4, 8), (2, 4, 6)]"
    by (simp add: WIN_LINES_def)
next
  show "computeOutcome b = Won m l \<longleftrightarrow>
     (\<exists>k<length WIN_LINES. complete b (WIN_LINES ! k) \<and>
        (\<forall>j<k. \<not> complete b (WIN_LINES ! j)) \<and>
        get b (fst (WIN_LINES ! k)) = Filled m \<and> l = triple_list (WIN_LINES ! k))"
    by (rule computeOutcome_Won_iff)
next
  assume h: "n < length WIN_LINES \<and> WIN_LINES ! n = (a, b', c) \<and>
        get b a = Filled m \<and> get b b' = Filled m \<and> get b c = Filled m \<and>
        (\<forall>j<n. \<not> complete b (WIN_LINES ! j))"
  then have "complete b (WIN_LINES ! n)" by simp
  with h show "computeOutcome b = Won m [a, b', c]"
    unfolding computeOutcome_Won_iff by (intro exI [of _ n]) simp
qed

text \<open>
  The theorem at the right column: X plays 2, 5, 8 and O plays 0, 1; no row and no
  earlier column is complete, and the outcome names the column.
\<close>

theorem computeOutcome_first_complete_line_witness:
  "(5::nat) < length WIN_LINES \<and> WIN_LINES ! 5 = (2, 5, 8) \<and>
   get (board (clicks [2, 0, 5, 1, 8] init)) 2 = Filled MarkX \<and>
   get (board (clicks [2, 0, 5, 1, 8] init)) 5 = Filled MarkX \<and>
   get (board (clicks [2, 0, 5, 1, 8] init)) 8 = Filled MarkX \<and>
   \<not> (\<exists>j<5. complete (board (clicks [2, 0, 5, 1, 8] init)) (WIN_LINES ! j)) \<and>
   computeOutcome (board (clicks [2, 0, 5, 1, 8] init)) = Won MarkX [2, 5, 8]"
proof -
  have h: "(5::nat) < length WIN_LINES \<and> WIN_LINES ! 5 = (2, 5, 8) \<and>
   get (board (clicks [2, 0, 5, 1, 8] init)) 2 = Filled MarkX \<and>
   get (board (clicks [2, 0, 5, 1, 8] init)) 5 = Filled MarkX \<and>
   get (board (clicks [2, 0, 5, 1, 8] init)) 8 = Filled MarkX \<and>
   \<not> (\<exists>j<5. complete (board (clicks [2, 0, 5, 1, 8] init)) (WIN_LINES ! j))"
    by code_simp
  with computeOutcome_first_complete_line
    [of "board (clicks [2, 0, 5, 1, 8] init)" MarkX "[2, 5, 8]" 5 2 5 8]
  show ?thesis by blast
qed

text \<open>
  C1 as stated fails. In the game \<open>double_win_moves\<close> all nine moves are accepted, the
  three cells of the right column \<open>[2,5,8]\<close> hold X, and the outcome is
  \<open>Won X [0,1,2]\<close>, not \<open>Won X [2,5,8]\<close>: the last move completed two lines and the
  scan returns the earlier one.
\<close>

theorem double_win_counterexample:
  "accepted_count double_win_moves init = 9 \<and>
   get (board (clicks double_win_moves init)) 2 = Filled MarkX \<and>
   get (board (clicks double_win_moves init)) 5 = Filled MarkX \<and>
   get (board (clicks double_win_moves init)) 8 = Filled MarkX \<and>
   computeOutcome (board (clicks double_win_moves init)) = Won MarkX [0, 1, 2] \<and>
   computeOutcome (board (clicks double_win_moves init)) \<noteq> Won MarkX [2, 5, 8]"
  by code_simp

text \<open>
  C2. In a state that satisfies the invariants (every reachable state does, lemma
  \<open>state_ok_run\<close>), a click on one of the nine squares that is occupied, or a click on
  any of them once the round is won or drawn, returns the state as it was: board, turn,
  scores and the effect's memory are all unchanged. The handler has no failing path.
\<close>

theorem applyMove_rejected_noop:
  assumes "state_ok s" "0 \<le> i" "i \<le> 8"
    and "truthy (get (board s) i) \<or> computeOutcome (board s) \<noteq> InProgress"
  shows "applyMove i s = s"
proof -
  have guard: "truthy (get (board s) i) \<or> truthy (winner (board s))"
  proof (cases "truthy (get (board s) i) \<or> truthy (winner (board s))")
    case True
    then show ?thesis .
  next
    case False
    then have w: "\<not> truthy (winner (board s))" and "\<not> truthy (get (board s) i)" by simp_all
    with assms(4) have "computeOutcome (board s) \<noteq> InProgress" by simp
    with w have "isDraw (board s)"
      by (cases "winner (board s)") (auto simp: computeOutcome_def split: if_splits)
    then have "isBoardFull (board s)" by (simp add: isDraw_def)
    with assms have "truthy (get (board s) i)"
      by (intro full_truthy) (simp_all add: state_ok_def)
    then show ?thesis by simp
  qed
  then have "handleSquareClick i s = s" by (auto simp: handleSquareClick_def)
  with assms(1) show ?thesis by (simp add: applyMove_def state_ok_def render_committed)
qed

text \<open>After X has won with the top row, a click on the empty square 5 changes nothing.\<close>

theorem applyMove_rejected_noop_witness:
  "state_ok (clicks row_win_moves init) \<and> (0::int) \<le> 5 \<and> (5::int) \<le> 8 \<and>
   \<not> truthy (get (board (clicks row_win_moves init)) 5) \<and>
   computeOutcome (board (clicks row_win_moves init)) \<noteq> InProgress \<and>
   applyMove 5 (clicks row_win_moves init) = clicks row_win_moves init"
proof -
  have a: "state_ok (clicks row_win_moves init)" by code_simp
  have b: "\<not> truthy (get (board (clicks row_win_moves init)) 5)" by code_simp
  have c: "computeOutcome (board (clicks row_win_moves init)) \<noteq> InProgress" by code_simp
  have "applyMove 5 (clicks row_win_moves init) = clicks row_win_moves init"
    using a c by (intro applyMove_rejected_noop) simp_all
  with a b c show ?thesis by simp
qed

text \<open>
  C3. In a state whose effect is up to date (every reachable state is, lemma
  \<open>state_ok_run\<close>) the score of a mark grows exactly once per won round, by exactly one.
  A click that takes the outcome from \<open>InProgress\<close> to \<open>Won m l\<close> adds exactly one to the
  score of \<open>m\<close> and leaves the other mark's score as it was; afterwards a further render,
  or any number of them, returns the same state, and so does any further click. A click
  after which the outcome is not \<open>Won\<close> leaves both scores as they were. So over any
  sequence of clicks from a state in progress the scores end as they began, plus one for
  the winner when the round ends won. \<open>computeOutcome\<close> and \<open>statusMessage\<close> are functions
  of the board and the turn and cannot touch the scores.
\<close>

theorem score_once_per_win:
  assumes "committed s"
  shows "(computeOutcome (board s) = InProgress \<and>
          computeOutcome (board (applyMove i s)) = Won m l \<longrightarrow>
            score m (scores (applyMove i s)) = score m (scores s) + 1 \<and>
            score (other m) (scores (applyMove i s)) = score (other m) (scores s) \<and>
            render (applyMove i s) = applyMove i s \<and>
            (render ^^ n) (applyMove i s) = applyMove i s \<and>
            applyMove j (applyMove i s) = applyMove i s) \<and>
         ((\<forall>w l'. computeOutcome (board (applyMove i s)) \<noteq> Won w l') \<longrightarrow>
            scores (applyMove i s) = scores s) \<and>
         (computeOutcome (board s) = InProgress \<longrightarrow>
            scores (clicks js s) =
              (case computeOutcome (board (clicks js s)) of
                 Won w l' \<Rightarrow> bump w (scores s) | _ \<Rightarrow> scores s))"
proof -
  let ?h = "handleSquareClick i s"
  let ?s' = "applyMove i s"
  have c: "committed ?s'" by (rule committed_applyMove)
  have p1: "computeOutcome (board s) = InProgress \<and>
          computeOutcome (board ?s') = Won m l \<longrightarrow>
            score m (scores ?s') = score m (scores s) + 1 \<and>
            score (other m) (scores ?s') = score (other m) (scores s) \<and>
            render ?s' = ?s' \<and> (render ^^ n) ?s' = ?s' \<and> applyMove j ?s' = ?s'"
  proof (rule impI)
    assume a: "computeOutcome (board s) = InProgress \<and>
          computeOutcome (board ?s') = Won m l"
    then have "winner (board s) = Null" by (simp add: computeOutcome_InProgress_winner)
    with assms have e: "effWinner ?h = Null" by (simp add: committed_def)
    from a have "winner (board ?s') = Filled m" by (simp add: computeOutcome_Won_winner)
    then have w: "winner (board ?h) = Filled m" by (simp add: applyMove_def)
    from e w have sc: "scores ?s' = bump m (scores s)"
      by (simp add: applyMove_def render_def)
    from c have r: "render ?s' = ?s'" by (rule render_committed)
    have rn: "(render ^^ n) ?s' = ?s'" by (induction n) (simp_all add: r)
    from w have "truthy (winner (board ?s'))" by (simp add: applyMove_def)
    with c have "applyMove j ?s' = ?s'" by (rule applyMove_won_noop)
    with sc r rn show "score m (scores ?s') = score m (scores s) + 1 \<and>
            score (other m) (scores ?s') = score (other m) (scores s) \<and>
            render ?s' = ?s' \<and> (render ^^ n) ?s' = ?s' \<and> applyMove j ?s' = ?s'"
      by (simp add: score_bump_same score_bump_other)
  qed
  have p2: "(\<forall>w l'. computeOutcome (board ?s') \<noteq> Won w l') \<longrightarrow> scores ?s' = scores s"
  proof (rule impI)
    assume "\<forall>w l'. computeOutcome (board ?s') \<noteq> Won w l'"
    then have "winner (board ?s') = Null" by (rule not_Won_winner)
    with assms show "scores ?s' = scores s" by (simp add: scores_applyMove)
  qed
  have p3: "computeOutcome (board s) = InProgress \<longrightarrow>
            scores (clicks js s) =
              (case computeOutcome (board (clicks js s)) of
                 Won w l' \<Rightarrow> bump w (scores s) | _ \<Rightarrow> scores s)"
  proof (rule impI)
    assume "computeOutcome (board s) = InProgress"
    then have "winner (board s) = Null" by (rule computeOutcome_InProgress_winner)
    with assms show "scores (clicks js s) =
              (case computeOutcome (board (clicks js s)) of
                 Won w l' \<Rightarrow> bump w (scores s) | _ \<Rightarrow> scores s)"
      unfolding case_outcome_winner by (rule scores_clicks)
  qed
  show ?thesis by (rule conjI [OF p1 conjI [OF p2 p3]])
qed

text \<open>
  The game \<open>0, 3, 1, 4\<close> followed by X on 2: the score of X goes from 0 to 1, that of O
  stays 0, and a render or a click on the free square 5 changes nothing. The first click
  of a game wins nothing and leaves the scores, and the whole game \<open>row_win_moves\<close> from
  the initial state ends with the scores 1 to 0.
\<close>

theorem score_once_per_win_witness:
  "committed (clicks [0, 3, 1, 4] init) \<and>
   computeOutcome (board (clicks [0, 3, 1, 4] init)) = InProgress \<and>
   computeOutcome (board (applyMove 2 (clicks [0, 3, 1, 4] init))) = Won MarkX [0, 1, 2] \<and>
   score MarkX (scores (applyMove 2 (clicks [0, 3, 1, 4] init))) = 1 \<and>
   score MarkO (scores (applyMove 2 (clicks [0, 3, 1, 4] init))) = 0 \<and>
   render (applyMove 2 (clicks [0, 3, 1, 4] init)) = applyMove 2 (clicks [0, 3, 1, 4] init) \<and>
   applyMove 5 (applyMove 2 (clicks [0, 3, 1, 4] init)) = applyMove 2 (clicks [0, 3, 1, 4] init) \<and>
   committed init \<and> computeOutcome (board init) = InProgress \<and>
   \<not> (\<exists>w l'. computeOutcome (board (applyMove 0 init)) = Won w l') \<and>
   scores (applyMove 0 init) = scores init \<and>
   computeOutcome (board (clicks row_win_moves init)) = Won MarkX [0, 1, 2] \<and>
   scores (clicks row_win_moves init) = \<lparr>score_X = 1, score_O = 0\<rparr>"
proof -
  have a: "committed (clicks [0, 3, 1, 4] init)" by code_simp
  have b: "computeOutcome (board (clicks [0, 3, 1, 4] init)) = InProgress" by code_simp
  have c: "computeOutcome (board (applyMove 2 (clicks [0, 3, 1, 4] init))) = Won MarkX [0, 1, 2]"
    by code_simp
  have d: "score MarkX (scores (clicks [0, 3, 1, 4] init)) = 0"
    "score MarkO (scores (clicks [0, 3, 1, 4] init)) = 0" by code_simp+
  have e: "committed init" "computeOutcome (board init) = InProgress"
    "computeOutcome (board (applyMove 0 init)) = InProgress"
    "computeOutcome (board (clicks row_win_moves init)) = Won MarkX [0, 1, 2]"
    "scores init = \<lparr>score_X = 0, score_O = 0\<rparr>" by code_simp+
  from e(3) have f: "\<forall>w l'. computeOutcome (board (applyMove 0 init)) \<noteq> Won w l'" by simp
  note t1 = score_once_per_win [OF a, where i = 2 and m = MarkX and l = "[0, 1, 2]"
      and n = 0 and j = 5]
  note t2 = score_once_per_win [OF e(1), where i = 0 and js = row_win_moves]
  from t1 b c d have 1:
    "score MarkX (scores (applyMove 2 (clicks [0, 3, 1, 4] init))) = 1 \<and>
     score MarkO (scores (applyMove 2 (clicks [0, 3, 1, 4] init))) = 0 \<and>
     render (applyMove 2 (clicks [0, 3, 1, 4] init)) = applyMove 2 (clicks [0, 3, 1, 4] init) \<and>
     applyMove 5 (applyMove 2 (clicks [0, 3, 1, 4] init)) = applyMove 2 (clicks [0, 3, 1, 4] init)"
    by simp
  from t2 f have 2: "scores (applyMove 0 init) = scores init" by blast
  from t2 e(2) have "scores (clicks row_win_moves init) =
      (case computeOutcome (board (clicks row_win_moves init)) of
         Won w l' \<Rightarrow> bump w (scores init) | _ \<Rightarrow> scores init)" by blast
  with e(4,5) have 3: "scores (clicks row_win_moves init) = \<lparr>score_X = 1, score_O = 0\<rparr>"
    by simp
  from a b c e f 1 2 3 show ?thesis by simp
qed

text \<open>
  C4 (as amended). A click with an index outside \<open>0..8\<close> never changes the nine cells
  nor the scores. It is a no-op only when the guard of line 72 rejects it, that is when
  a winner exists or the slot under that index already holds a mark. Otherwise it is
  accepted like any other move: the mark is stored under that index and the turn flips.
  The array grows, to length \<open>index + 1\<close>, exactly when the index is an array index
  (\<open>0 \<le> index < 2^32 - 1\<close>) at or beyond the current length; a negative index, an index
  of \<open>2^32 - 1\<close> or more, and an index below the current length leave the length as it
  was.
\<close>

theorem applyMove_out_of_range:
  assumes "committed s" and "i < 0 \<or> 8 < i"
  shows "(\<forall>j. 0 \<le> j \<and> j \<le> 8 \<longrightarrow> get (board (applyMove i s)) j = get (board s) j) \<and>
         scores (applyMove i s) = scores s \<and>
         (\<not> accepted i s \<longrightarrow> applyMove i s = s) \<and>
         (accepted i s \<longrightarrow>
            board (applyMove i s) = set_index (slice (board s)) i (Filled (turn s)) \<and>
            get (board (applyMove i s)) i = Filled (turn s) \<and>
            xIsNext (applyMove i s) = (\<not> xIsNext s) \<and>
            length (elems (board (applyMove i s))) =
              (if is_array_index i \<and> length (elems (board s)) \<le> nat i
               then nat i + 1 else length (elems (board s))))"
proof (cases "accepted i s")
  case False
  then have "handleSquareClick i s = s"
    by (auto simp: accepted_def handleSquareClick_def)
  with assms(1) have "applyMove i s = s" by (simp add: applyMove_def render_committed)
  with False show ?thesis by simp
next
  case True
  let ?b' = "set_index (slice (board s)) i (Filled (turn s))"
  from True have h: "handleSquareClick i s = s\<lparr>board := ?b', xIsNext := \<not> xIsNext s\<rparr>"
    by (auto simp: accepted_def handleSquareClick_def)
  have cells: "get ?b' j = get (board s) j" if "0 \<le> j" "j \<le> 8" for j
    using that assms(2) by (intro get_set_index_other in_range_array_index) auto
  then have "winner ?b' = winner (board s)" by (intro winner_cong) simp
  with assms(1) have "committed (handleSquareClick i s)"
    by (simp add: h committed_def)
  then have a: "applyMove i s = s\<lparr>board := ?b', xIsNext := \<not> xIsNext s\<rparr>"
    by (simp add: applyMove_def render_committed h)
  show ?thesis using True cells
    by (simp add: a get_set_index_same length_set_index_exact)
qed

text \<open>
  On the initial state a click on index 9 is accepted and the array grows to ten
  elements; a second click on 9 finds the slot taken and is rejected. A click on
  \<open>4294967295\<close>, which is no array index, is accepted too and leaves nine elements.
\<close>

theorem applyMove_out_of_range_witness:
  "committed init \<and> accepted 9 init \<and>
   get (board (applyMove 9 init)) 9 = Filled (turn init) \<and>
   xIsNext (applyMove 9 init) = (\<not> xIsNext init) \<and>
   scores (applyMove 9 init) = scores init \<and>
   get (board (applyMove 9 init)) 4 = get (board init) 4 \<and>
   length (elems (board (applyMove 9 init))) = 10 \<and>
   \<not> accepted 9 (applyMove 9 init) \<and>
   applyMove 9 (applyMove 9 init) = applyMove 9 init \<and>
   accepted 4294967295 init \<and>
   xIsNext (applyMove 4294967295 init) = (\<not> xIsNext init) \<and>
   length (elems (board (applyMove 4294967295 init))) = 9"
proof -
  have a: "committed init" "accepted 9 init" "accepted 4294967295 init" by code_simp+
  have b: "committed (applyMove 9 init)" "\<not> accepted 9 (applyMove 9 init)" by code_simp+
  have r: "(9::int) < 0 \<or> 8 < (9::int)" "(0::int) \<le> 4 \<and> (4::int) \<le> 8"
    "(4294967295::int) < 0 \<or> 8 < (4294967295::int)" by simp_all
  have l: "length (elems (board init)) = 9" by (simp add: init_def empty_board_def)
  note t1 = applyMove_out_of_range [OF a(1) r(1)]
  note t2 = applyMove_out_of_range [OF b(1) r(1)]
  note t3 = applyMove_out_of_range [OF a(1) r(3)]
  from t1 a(2) have "length (elems (board (applyMove 9 init))) =
      (if is_array_index 9 \<and> length (elems (board init)) \<le> nat 9
       then nat 9 + 1 else length (elems (board init)))" by blast
  then have l1: "length (elems (board (applyMove 9 init))) = 10"
    by (simp add: l is_array_index_def)
  from t3 a(3) have "length (elems (board (applyMove 4294967295 init))) =
      (if is_array_index 4294967295 \<and> length (elems (board init)) \<le> nat 4294967295
       then nat 4294967295 + 1 else length (elems (board init)))" by blast
  then have l3: "length (elems (board (applyMove 4294967295 init))) = 9"
    by (simp add: l is_array_index_def)
  from t1 t2 t3 a b r(2) l1 l3 show ?thesis by blast
qed

text \<open>
  C4 as stated fails: on the initial state a click on index 9 changes the state, the turn
  passes to O and the array grows to ten elements; a click on index -1 passes the turn
  as well.
\<close>

theorem out_of_range_counterexample:
  "applyMove 9 init \<noteq> init \<and>
   xIsNext init = True \<and> xIsNext (applyMove 9 init) = False \<and>
   length (elems (board init)) = 9 \<and> length (elems (board (applyMove 9 init))) = 10 \<and>
   xIsNext (applyMove (- 1) init) = False"
  by code_simp

text \<open>
  C5. From a reset state (the initial one, or the result of either reset) and for every
  sequence of clicks, X is to move exactly when the number of accepted clicks so far is
  even; a rejected click keeps the turn and an accepted one flips it.
\<close>

theorem turn_alternates:
  "xIsNext (clicks js init) = even (accepted_count js init) \<and>
   xIsNext (clicks js (resetRound s)) = even (accepted_count js (resetRound s)) \<and>
   xIsNext (clicks js (resetAll_op s)) = even (accepted_count js (resetAll_op s)) \<and>
   (turn (clicks js (resetRound s)) = MarkX \<longleftrightarrow> even (accepted_count js (resetRound s))) \<and>
   (\<not> accepted i t \<longrightarrow> xIsNext (applyMove i t) = xIsNext t) \<and>
   (accepted i t \<longrightarrow> xIsNext (applyMove i t) = (\<not> xIsNext t))"
  by (simp add: xIsNext_clicks xIsNext_resets xIsNext_applyMove turn_def)

text \<open>
  The clicks 0, 0, 4 from the initial state: the second is rejected, two are accepted and
  X is to move again.
\<close>

theorem turn_alternates_witness:
  "accepted_count [0, 0, 4] init = 2 \<and> xIsNext (clicks [0, 0, 4] init) = True \<and>
   accepted_count [0, 0] init = 1 \<and> xIsNext (clicks [0, 0] init) = False \<and>
   \<not> accepted 0 (clicks [0] init) \<and>
   xIsNext (applyMove 0 (clicks [0] init)) = xIsNext (clicks [0] init) \<and>
   accepted 4 (clicks [0] init) \<and>
   xIsNext (applyMove 4 (clicks [0] init)) = (\<not> xIsNext (clicks [0] init))"
proof -
  have c: "accepted_count [0, 0, 4] init = 2" "accepted_count [0, 0] init = 1"
    "\<not> accepted 0 (clicks [0] init)" "accepted 4 (clicks [0] init)" by code_simp+
  from turn_alternates [where js = "[0, 0, 4]" and i = 0 and t = "clicks [0] init"]
    turn_alternates [where js = "[0, 0]" and i = 4 and t = "clicks [0] init"] c
  show ?thesis by simp
qed

text \<open>
  C6. On a board that satisfies \<open>board_ok\<close> (every board of nine cells that are empty or
  marked does, and every reachable board, lemma \<open>state_ok_run\<close>) and has no complete
  line: when all nine cells hold a mark the outcome is \<open>Draw\<close>, and when one of them is
  empty it is \<open>InProgress\<close>.
\<close>

theorem draw_or_in_progress:
  assumes "board_ok b" and "\<forall>l \<in> set WIN_LINES. \<not> complete b l"
  shows "((\<forall>j. 0 \<le> j \<and> j \<le> 8 \<longrightarrow> truthy (get b j)) \<longrightarrow> computeOutcome b = Draw) \<and>
         ((\<exists>j. 0 \<le> j \<and> j \<le> 8 \<and> \<not> truthy (get b j)) \<longrightarrow> computeOutcome b = InProgress)"
proof (intro conjI impI)
  from assms(2) have w: "winner b = Null" by (simp add: winner_Null_iff)
  {
    assume full: "\<forall>j. 0 \<le> j \<and> j \<le> 8 \<longrightarrow> truthy (get b j)"
    have "c \<noteq> Null" if "c \<in> set (elems b)" for c
    proof -
      from that obtain k where k: "k < length (elems b)" "c = elems b ! k"
        by (auto simp: in_set_conv_nth)
      show ?thesis
      proof (cases "k < 9")
        case True
        then have r: "0 \<le> int k" "int k \<le> 8" by simp_all
        with full have "truthy (get b (int k))" by blast
        moreover have "get b (int k) = c"
          using get_in_range(1) [OF assms(1) r] k by simp
        ultimately show ?thesis by auto
      next
        case False
        with assms(1) k show ?thesis by (simp add: board_ok_nth)
      qed
    qed
    then have "isBoardFull b" by (simp add: isBoardFull_def list_all_iff)
    with w show "computeOutcome b = Draw" by (simp add: computeOutcome_def isDraw_def)
  }
  {
    assume "\<exists>j. 0 \<le> j \<and> j \<le> 8 \<and> \<not> truthy (get b j)"
    then obtain j where j: "0 \<le> j" "j \<le> 8" "\<not> truthy (get b j)" by blast
    from get_in_range(3) [OF assms(1) j(1,2)] j(3) have n: "get b j = Null"
      by (cases "get b j") auto
    with get_in_range(1,2) [OF assms(1) j(1,2)] have "Null \<in> set (elems b)"
      by (metis nth_mem)
    then have "\<not> isBoardFull b" by (auto simp: isBoardFull_def list_all_iff)
    with w show "computeOutcome b = InProgress" by (simp add: computeOutcome_def isDraw_def)
  }
qed

text \<open>
  The full board of \<open>draw_moves\<close> is a draw; the empty board is in progress.
\<close>

theorem draw_or_in_progress_witness:
  "board_ok (board (clicks draw_moves init)) \<and>
   \<not> (\<exists>l \<in> set WIN_LINES. complete (board (clicks draw_moves init)) l) \<and>
   \<not> (\<exists>j \<in> set [0, 1, 2, 3, 4, 5, 6, 7, 8]. \<not> truthy (get (board (clicks draw_moves init)) j)) \<and>
   computeOutcome (board (clicks draw_moves init)) = Draw \<and>
   board_ok (board init) \<and>
   \<not> (\<exists>l \<in> set WIN_LINES. complete (board init) l) \<and>
   \<not> truthy (get (board init) 0) \<and>
   computeOutcome (board init) = InProgress"
proof -
  have a: "board_ok (board (clicks draw_moves init))" by code_simp
  have b: "\<forall>l \<in> set WIN_LINES. \<not> complete (board (clicks draw_moves init)) l" by code_simp
  have c: "\<forall>j \<in> set [0, 1, 2, 3, 4, 5, 6, 7, 8]. truthy (get (board (clicks draw_moves init)) j)"
    by code_simp
  have c': "\<forall>j. 0 \<le> j \<and> j \<le> 8 \<longrightarrow> truthy (get (board (clicks draw_moves init)) j)"
  proof (intro allI impI)
    fix j :: int assume "0 \<le> j \<and> j \<le> 8"
    then have "j \<in> set [0, 1, 2, 3, 4, 5, 6, 7, 8]" by (simp; presburger)
    with c show "truthy (get (board (clicks draw_moves init)) j)" by blast
  qed
  have d: "board_ok (board init)" by code_simp
  have e: "\<forall>l \<in> set WIN_LINES. \<not> complete (board init) l" by code_simp
  have f: "\<not> truthy (get (board init) 0)" by code_simp
  then have f': "\<exists>j. 0 \<le> j \<and> j \<le> 8 \<and> \<not> truthy (get (board init) j)"
    by (intro exI [of _ 0]) simp
  from draw_or_in_progress [OF a b] c' have 1: "computeOutcome (board (clicks draw_moves init)) = Draw"
    by blast
  from draw_or_in_progress [OF d e] f' have 2: "computeOutcome (board init) = InProgress"
    by blast
  from a b c d e f 1 2 show ?thesis by blast
qed

text \<open>
  C7. From every state \<open>resetRound\<close> gives the board of nine empty cells, gives the turn
  to X and keeps the scores; \<open>resetAll_op\<close> gives the same board and turn and sets
  both scores to 0.
\<close>

theorem reset_semantics:
  "board (resetRound s) = empty_board \<and>
   elems (board (resetRound s)) = [Null, Null, Null, Null, Null, Null, Null, Null, Null] \<and>
   xIsNext (resetRound s) = True \<and>
   scores (resetRound s) = scores s \<and>
   board (resetAll_op s) = board (resetRound s) \<and>
   xIsNext (resetAll_op s) = xIsNext (resetRound s) \<and>
   scores (resetAll_op s) = \<lparr>score_X = 0, score_O = 0\<rparr>"
proof -
  have w: "winner empty_board = Null" by code_simp
  have e: "elems empty_board = [Null, Null, Null, Null, Null, Null, Null, Null, Null]"
    by code_simp
  show ?thesis
    by (simp add: resetRound_def resetAll_op_def resetAll_def resetBoard_def render_def w e)
qed

text \<open>
  After X has won a round the scores are 1 to 0; \<open>resetRound\<close> keeps them and
  \<open>resetAll_op\<close> zeroes them.
\<close>

theorem reset_semantics_witness:
  "scores (clicks row_win_moves init) = \<lparr>score_X = 1, score_O = 0\<rparr> \<and>
   scores (resetRound (clicks row_win_moves init)) = \<lparr>score_X = 1, score_O = 0\<rparr> \<and>
   xIsNext (resetRound (clicks row_win_moves init)) = True \<and>
   board (resetRound (clicks row_win_moves init)) = empty_board \<and>
   scores (resetAll_op (clicks row_win_moves init)) = \<lparr>score_X = 0, score_O = 0\<rparr>"
proof -
  have a: "scores (clicks row_win_moves init) = \<lparr>score_X = 1, score_O = 0\<rparr>" by code_simp
  from reset_semantics [of "clicks row_win_moves init"] a show ?thesis by simp
qed

text \<open>
  C8 (as amended). In every state reached from the initial one by resets and by clicks on
  the indices \<open>0..8\<close> the board has exactly nine elements, and a click on such an index
  either leaves the board as it is or writes the mark of the turn into the clicked cell,
  which was empty, and nothing else. With arbitrary integer indices the board has at
  least nine elements in every reachable state and no click ever shortens it: an
  accepted click whose index is an array index (\<open>0 \<le> index < 2^32 - 1\<close>) at or beyond
  the current length extends the board to length \<open>index + 1\<close>, and every other click
  leaves the length as it was.
\<close>

theorem board_length_invariant:
  "(list_all in_range_event evs \<longrightarrow>
      length (elems (board (run evs))) = 9 \<and>
      (0 \<le> i \<and> i \<le> 8 \<longrightarrow>
         board (applyMove i (run evs)) = board (run evs) \<or>
         (get (board (run evs)) i = Null \<and>
          board (applyMove i (run evs)) =
            (board (run evs))\<lparr>elems := (elems (board (run evs)))[nat i := Filled (turn (run evs))]\<rparr>))) \<and>
   9 \<le> length (elems (board (run evs'))) \<and>
   length (elems (board s)) \<le> length (elems (board (applyMove k s))) \<and>
   length (elems (board (applyMove k s))) =
     (if accepted k s \<and> is_array_index k \<and> length (elems (board s)) \<le> nat k
      then nat k + 1 else length (elems (board s)))"
proof (intro conjI impI)
  assume r: "list_all in_range_event evs"
  then have n: "nine_cells (board (run evs))" by (rule nine_cells_run)
  then show "length (elems (board (run evs))) = 9" by (simp add: nine_cells_def)
  assume "0 \<le> i \<and> i \<le> 8"
  then have i: "0 \<le> i" "i \<le> 8" by simp_all
  have "board_ok (board (run evs))" using state_ok_run [of evs] by (simp add: state_ok_def)
  from applyMove_board_in_range [OF this n i]
  show "board (applyMove i (run evs)) = board (run evs) \<or>
         (get (board (run evs)) i = Null \<and>
          board (applyMove i (run evs)) =
            (board (run evs))\<lparr>elems := (elems (board (run evs)))[nat i := Filled (turn (run evs))]\<rparr>)" .
next
  show "9 \<le> length (elems (board (run evs')))"
    using state_ok_run [of evs'] by (simp add: state_ok_def board_ok_def)
next
  show "length (elems (board s)) \<le> length (elems (board (applyMove k s)))"
    by (rule length_applyMove)
next
  show "length (elems (board (applyMove k s))) =
     (if accepted k s \<and> is_array_index k \<and> length (elems (board s)) \<le> nat k
      then nat k + 1 else length (elems (board s)))"
    by (rule length_applyMove_exact)
qed

text \<open>
  After a rejected click, a reset and a click on 0, the board has nine elements and a
  click on 1 writes cell 1 only. After a click on 12 the board has thirteen elements; a
  click on the hole 10 is accepted and leaves thirteen, a click on 20 gives twenty-one.
\<close>

theorem board_length_invariant_witness:
  "list_all in_range_event [Click 4, Click 4, ResetRound, Click 0] \<and>
   length (elems (board (run [Click 4, Click 4, ResetRound, Click 0]))) = 9 \<and>
   get (board (run [Click 4, Click 4, ResetRound, Click 0])) 1 = Null \<and>
   board (applyMove 1 (run [Click 4, Click 4, ResetRound, Click 0])) =
     (board (run [Click 4, Click 4, ResetRound, Click 0]))
       \<lparr>elems := (elems (board (run [Click 4, Click 4, ResetRound, Click 0])))
          [nat 1 := Filled (turn (run [Click 4, Click 4, ResetRound, Click 0]))]\<rparr> \<and>
   length (elems (board (run [Click 12]))) = 13 \<and>
   accepted 10 (run [Click 12]) \<and>
   length (elems (board (applyMove 10 (run [Click 12])))) = 13 \<and>
   accepted 20 (run [Click 12]) \<and>
   length (elems (board (applyMove 20 (run [Click 12])))) = 21"
proof -
  have a: "list_all in_range_event [Click 4, Click 4, ResetRound, Click 0]" by simp
  have b: "board (applyMove 1 (run [Click 4, Click 4, ResetRound, Click 0])) \<noteq>
           board (run [Click 4, Click 4, ResetRound, Click 0])" by code_simp
  have c: "(0::int) \<le> 1 \<and> (1::int) \<le> 8" by simp
  have d: "length (elems (board (run [Click 12]))) = 13"
    "accepted 10 (run [Click 12])" "accepted 20 (run [Click 12])" by code_simp+
  note t = board_length_invariant [where evs = "[Click 4, Click 4, ResetRound, Click 0]"
      and i = 1]
  from t [where s = "run [Click 12]" and k = 10] d
  have l1: "length (elems (board (applyMove 10 (run [Click 12])))) = 13"
    by (simp add: is_array_index_def)
  from t [where s = "run [Click 12]" and k = 20] d
  have l2: "length (elems (board (applyMove 20 (run [Click 12])))) = 21"
    by (simp add: is_array_index_def)
  from t a b c d l1 l2 show ?thesis by blast
qed

text \<open>
  C8 as stated fails: one click on index 9 from the initial state gives a board of ten
  elements.
\<close>

theorem board_length_counterexample:
  "length (elems (board (run [Click 9]))) = 10 \<and> length (elems (board (run [Click 9]))) \<noteq> 9"
  by code_simp

text \<open>
  C9. The status text is a function of the board and the turn. It is \<open>Winner: \<close> followed
  by the mark \<open>m\<close> exactly when the outcome is \<open>Won m l\<close> for some line, the draw text
  exactly when the outcome is \<open>Draw\<close>, and \<open>Turn: \<close> followed by the mark to move exactly
  when the outcome is \<open>InProgress\<close>.
\<close>

theorem statusMessage_by_outcome:
  "(statusMessage b xn = ''Winner: '' @ cell_str (Filled m) \<longleftrightarrow> (\<exists>l. computeOutcome b = Won m l)) \<and>
   (statusMessage b xn = ''It'' @ [CHR 0x27] @ ''s a draw'' \<longleftrightarrow> computeOutcome b = Draw) \<and>
   (statusMessage b xn = ''Turn: '' @ (if xn then ''X'' else ''O'') \<longleftrightarrow>
      computeOutcome b = InProgress) \<and>
   cell_str (Filled MarkX) = ''X'' \<and> cell_str (Filled MarkO) = ''O''"
proof -
  consider (won) m' where "winner b = Filled m'" | (null) "winner b = Null"
    using winner_cases [of b] by blast
  then show ?thesis
  proof cases
    case won
    then show ?thesis
      by (auto simp: statusMessage_def computeOutcome_def draw_text_def cell_str_inj
          elim: cell_str.elims)
  next
    case null
    then show ?thesis
      by (auto simp: statusMessage_def computeOutcome_def draw_text_def
          elim: cell_str.elims)
  qed
qed

text \<open>
  The three texts on a won board, a drawn board and a board in progress.
\<close>

theorem statusMessage_by_outcome_witness:
  "computeOutcome (board (clicks row_win_moves init)) = Won MarkX [0, 1, 2] \<and>
   statusMessage (board (clicks row_win_moves init)) (xIsNext (clicks row_win_moves init)) =
     ''Winner: X'' \<and>
   computeOutcome (board (clicks draw_moves init)) = Draw \<and>
   statusMessage (board (clicks draw_moves init)) (xIsNext (clicks draw_moves init)) =
     ''It'' @ [CHR 0x27] @ ''s a draw'' \<and>
   computeOutcome (board (clicks [0] init)) = InProgress \<and>
   xIsNext (clicks [0] init) = False \<and>
   statusMessage (board (clicks [0] init)) (xIsNext (clicks [0] init)) = ''Turn: O''"
proof -
  have a: "computeOutcome (board (clicks row_win_moves init)) = Won MarkX [0, 1, 2]"
    "computeOutcome (board (clicks draw_moves init)) = Draw"
    "computeOutcome (board (clicks [0] init)) = InProgress"
    "xIsNext (clicks [0] init) = False" by code_simp+
  from statusMessage_by_outcome
         [of "board (clicks row_win_moves init)" "xIsNext (clicks row_win_moves init)" MarkX]
       statusMessage_by_outcome
         [of "board (clicks draw_moves init)" "xIsNext (clicks draw_moves init)" MarkX]
       statusMessage_by_outcome
         [of "board (clicks [0] init)" "xIsNext (clicks [0] init)" MarkX]
       a
  show ?thesis by auto
qed

text \<open>
  C10. A click on one of the nine squares whose cell is empty while the outcome is
  \<open>InProgress\<close> puts the mark of the turn into that cell, changes the element list at that
  index only, so the other eight cells read as before, and raises the number of occupied
  cells by one.
\<close>

theorem accepted_move_frame:
  assumes "0 \<le> i" "i \<le> 8" "get (board s) i = Null"
    and "computeOutcome (board s) = InProgress"
  shows "get (board (applyMove i s)) i = Filled (turn s) \<and>
         (\<forall>j. 0 \<le> j \<and> j \<le> 8 \<and> j \<noteq> i \<longrightarrow> get (board (applyMove i s)) j = get (board s) j) \<and>
         elems (board (applyMove i s)) = (elems (board s))[nat i := Filled (turn s)] \<and>
         occupied (board (applyMove i s)) = occupied (board s) + 1"
proof -
  let ?v = "Filled (turn s)"
  from assms(4) have "winner (board s) = Null" by (rule computeOutcome_InProgress_winner)
  with assms(3) have
    b: "board (applyMove i s) = set_index (slice (board s)) i ?v"
    by (simp add: applyMove_def handleSquareClick_def)
  from assms(1,2) have ai: "is_array_index i" by (rule in_range_array_index)
  with assms(3) have n: "nat i < length (elems (board s))" "elems (board s) ! nat i = Null"
    by (auto simp: get_def split: if_splits)
  from ai n(1) have e: "elems (board (applyMove i s)) = (elems (board s))[nat i := ?v]"
    by (simp add: b set_index_inside)
  have others: "get (board (applyMove i s)) j = get (board s) j"
    if "0 \<le> j \<and> j \<le> 8 \<and> j \<noteq> i" for j
    unfolding b using that by (intro get_set_index_other in_range_array_index) simp_all
  from assms(1,2) have i9: "nat i < 9" by linarith
  with n have "nat i < length (take 9 (elems (board s)))" "\<not> truthy (take 9 (elems (board s)) ! nat i)"
    by simp_all
  then have "length (filter truthy ((take 9 (elems (board s)))[nat i := ?v])) =
        Suc (length (filter truthy (take 9 (elems (board s)))))"
    by (intro length_filter_update) simp_all
  with i9 have occ: "occupied (board (applyMove i s)) = occupied (board s) + 1"
    by (simp add: occupied_def e take_update_swap)
  from others e occ show ?thesis by (simp add: b get_set_index_same)
qed

text \<open>
  After X on 0, O clicks the centre: cell 4 holds O, cell 0 is as it was, and the count
  of occupied cells goes from 1 to 2.
\<close>

theorem accepted_move_frame_witness:
  "(0::int) \<le> 4 \<and> (4::int) \<le> 8 \<and> get (board (clicks [0] init)) 4 = Null \<and>
   computeOutcome (board (clicks [0] init)) = InProgress \<and>
   get (board (applyMove 4 (clicks [0] init))) 4 = Filled MarkO \<and>
   get (board (applyMove 4 (clicks [0] init))) 0 = get (board (clicks [0] init)) 0 \<and>
   occupied (board (clicks [0] init)) = 1 \<and>
   occupied (board (applyMove 4 (clicks [0] init))) = 2"
proof -
  have a: "get (board (clicks [0] init)) 4 = Null"
    "computeOutcome (board (clicks [0] init)) = InProgress"
    "turn (clicks [0] init) = MarkO" "occupied (board (clicks [0] init)) = 1" by code_simp+
  have r: "(0::int) \<le> 4" "(4::int) \<le> 8" "(0::int) \<le> 0 \<and> (0::int) \<le> 8 \<and> (0::int) \<noteq> 4"
    by simp_all
  from accepted_move_frame [OF r(1,2) a(1,2)] a r show ?thesis by auto
qed

end
